theory Spec2Isabelle
  imports Complex_Main "HOL-Library.Char_ord" "HOL-Library.List_Lexorder"
begin

section \<open>Python strings\<close>

text \<open>
  A Python string is a \<^typ>\<open>string\<close>. Step 5 of the cleaner deletes every character
  other than \<open>a-z\<close>, \<open>0-9\<close>, the space and the apostrophe, so the character classes
  below are the ASCII ones.
\<close>

definition apos :: char where
  "apos = CHR 0x27"

definition is_space :: "char \<Rightarrow> bool" where
  \<comment> \<open>the characters \<open>str.split()\<close> splits at: tab, newline, VT, FF, CR, FS, GS, RS, US, space\<close>
  "is_space c = (c \<in> set [CHR 0x09, CHR 0x0A, CHR 0x0B, CHR 0x0C, CHR 0x0D,
                            CHR 0x1C, CHR 0x1D, CHR 0x1E, CHR 0x1F, CHR '' ''])"

definition is_digit :: "char \<Rightarrow> bool" where
  "is_digit c = (c \<in> set ''0123456789'')"

definition is_lower :: "char \<Rightarrow> bool" where
  "is_lower c = (c \<in> set ''abcdefghijklmnopqrstuvwxyz'')"

definition is_upper :: "char \<Rightarrow> bool" where
  "is_upper c = (c \<in> set ''ABCDEFGHIJKLMNOPQRSTUVWXYZ'')"

definition is_word :: "char \<Rightarrow> bool" where
  \<comment> \<open>the class \<open>\w\<close>\<close>
  "is_word c = (is_lower c \<or> is_upper c \<or> is_digit c \<or> c = CHR ''_'')"

definition lower_char :: "char \<Rightarrow> char" where
  "lower_char c =
     (case map_of (zip ''ABCDEFGHIJKLMNOPQRSTUVWXYZ'' ''abcdefghijklmnopqrstuvwxyz'') c of
        Some l \<Rightarrow> l
      | None \<Rightarrow> c)"

definition lower :: "string \<Rightarrow> string" where
  \<comment> \<open>\<open>str.lower()\<close>\<close>
  "lower s = map lower_char s"

function split :: "string \<Rightarrow> string list" where
  \<comment> \<open>\<open>str.split()\<close> without arguments: the maximal runs of non-whitespace characters\<close>
  "split [] = []"
| "split (c # cs) =
     (if is_space c then split cs
      else (c # takeWhile (\<lambda>x. \<not> is_space x) cs) # split (dropWhile (\<lambda>x. \<not> is_space x) cs))"
  by pat_completeness auto
termination
  by (relation "measure length") (auto simp: length_dropWhile_le less_Suc_eq_le)

fun join :: "string \<Rightarrow> string list \<Rightarrow> string" where
  \<comment> \<open>\<open>sep.join(words)\<close>\<close>
  "join sep [] = []"
| "join sep [w] = w"
| "join sep (w # v # ws) = w @ sep @ join sep (v # ws)"

section \<open>Regular expressions of the \<open>re\<close> module\<close>

text \<open>
  The patterns of the source use literals, character classes, \<open>\b\<close>, concatenation,
  alternation, the greedy \<open>*\<close>, \<open>+\<close> and \<open>{1,2}\<close>, and numbered groups. \<open>re_match\<close> is a
  backtracking matcher: at a cursor in the subject (the text before the cursor, reversed,
  and the text after it) it returns every way the pattern can match there, in the order in
  which \<open>re\<close> tries them, so the head of the list is the match \<open>re\<close> reports.
\<close>

datatype regex =
    Eps
  | Chr char
  | Cls "char \<Rightarrow> bool"
  | WordB
  | Seq regex regex
  | Alt regex regex
  | Star regex
  | Group nat regex

type_synonym caps = "(nat \<times> string) list"

definition at_boundary :: "string \<Rightarrow> string \<Rightarrow> bool" where
  \<comment> \<open>\<open>\b\<close>: exactly one of the characters left and right of the cursor is a word character\<close>
  "at_boundary b s =
     ((case b of [] \<Rightarrow> False | x # _ \<Rightarrow> is_word x) \<noteq> (case s of [] \<Rightarrow> False | y # _ \<Rightarrow> is_word y))"

fun re_match :: "regex \<Rightarrow> string \<Rightarrow> string \<Rightarrow> caps \<Rightarrow> (string \<times> string \<times> caps) list" where
  "re_match Eps b s g = [(b, s, g)]"
| "re_match (Chr c) b s g =
     (case s of [] \<Rightarrow> [] | x # xs \<Rightarrow> if x = c then [(x # b, xs, g)] else [])"
| "re_match (Cls P) b s g =
     (case s of [] \<Rightarrow> [] | x # xs \<Rightarrow> if P x then [(x # b, xs, g)] else [])"
| "re_match WordB b s g = (if at_boundary b s then [(b, s, g)] else [])"
| "re_match (Seq r1 r2) b s g =
     concat (map (\<lambda>(b', s', g'). re_match r2 b' s' g') (re_match r1 b s g))"
| "re_match (Alt r1 r2) b s g = re_match r1 b s g @ re_match r2 b s g"
| "re_match (Star r) b s g =
     concat (map (\<lambda>(b', s', g'). if length s' < length s then re_match (Star r) b' s' g' else [])
                 (re_match r b s g))
     @ [(b, s, g)]"
| "re_match (Group k r) b s g =
     map (\<lambda>(b', s', g'). (b', s', (k, rev (take (length b' - length b) b')) # g'))
         (re_match r b s g)"

definition Plus :: "regex \<Rightarrow> regex" where
  "Plus r = Seq r (Star r)"

definition Opt :: "regex \<Rightarrow> regex" where
  "Opt r = Alt r Eps"

fun Seqs :: "regex list \<Rightarrow> regex" where
  "Seqs [] = Eps"
| "Seqs [r] = r"
| "Seqs (r # rs) = Seq r (Seqs rs)"

fun Alts :: "regex list \<Rightarrow> regex" where
  "Alts [] = Eps"
| "Alts [r] = r"
| "Alts (r # rs) = Alt r (Alts rs)"

definition Lit :: "string \<Rightarrow> regex" where
  "Lit s = Seqs (map Chr s)"

definition digit :: regex where
  \<comment> \<open>\<open>\d\<close>\<close>
  "digit = Cls is_digit"

definition any_char :: regex where
  \<comment> \<open>\<open>.\<close>: any character except a newline\<close>
  "any_char = Cls (\<lambda>c. c \<noteq> CHR 0x0A)"

text \<open>A replacement template: literal text and group references \<open>\g<k>\<close>.\<close>

datatype tpart = TLit string | TGroup nat

type_synonym template = "tpart list"

fun expand :: "template \<Rightarrow> caps \<Rightarrow> string" where
  "expand [] g = []"
| "expand (TLit s # t) g = s @ expand t g"
| "expand (TGroup k # t) g = (case map_of g k of Some x \<Rightarrow> x | None \<Rightarrow> []) @ expand t g"

declare re_match.simps(7) [simp del]

lemma re_match_length:
  "(b', s', g') \<in> set (re_match r b s g) \<Longrightarrow> length s' \<le> length s"
proof (induction r b s g arbitrary: b' s' g' rule: re_match.induct)
  case (5 r1 r2 b s g)
  from "5.prems" obtain b1 s1 g1 where
    m1: "(b1, s1, g1) \<in> set (re_match r1 b s g)" and
    m2: "(b', s', g') \<in> set (re_match r2 b1 s1 g1)"
    by auto
  from "5.IH"(1) [OF m1] have "length s1 \<le> length s" .
  moreover from "5.IH"(2) [OF m1 refl refl m2] have "length s' \<le> length s1" .
  ultimately show ?case by simp
next
  case (6 r1 r2 b s g)
  then show ?case by auto
next
  case (7 r b s g)
  show ?case
  proof (cases "(b', s', g') = (b, s, g)")
    case True
    then show ?thesis by simp
  next
    case False
    have eq: "re_match (Star r) b s g =
        concat (map (\<lambda>(b', s', g'). if length s' < length s then re_match (Star r) b' s' g' else [])
                    (re_match r b s g)) @ [(b, s, g)]"
      by (rule re_match.simps(7))
    from "7.prems" have "(b', s', g') \<in> set (concat (map (\<lambda>(b', s', g'). if length s' < length s then re_match (Star r) b' s' g' else [])
                    (re_match r b s g)) @ [(b, s, g)])"
      by (simp only: eq)
    with False obtain b1 s1 g1 where
      m1: "(b1, s1, g1) \<in> set (re_match r b s g)" and
      m2: "(b', s', g') \<in> set (if length s1 < length s then re_match (Star r) b1 s1 g1 else [])"
      by auto
    from m2 have lt: "length s1 < length s"
      by (cases "length s1 < length s") simp_all
    with m2 have m3: "(b', s', g') \<in> set (re_match (Star r) b1 s1 g1)"
      by simp
    from "7.IH"(2) [OF m1 refl refl lt m3] have "length s' \<le> length s1" .
    with lt show ?thesis by simp
  qed
next
  case (8 k r b s g)
  then show ?case by auto
qed (auto split: list.splits if_splits)

text \<open>
  \<open>re.sub\<close> and \<open>re.findall\<close> scan the subject from left to right. At each cursor the first
  match is taken and the scan goes on behind it; where nothing matches, one character is
  passed over. After an empty match the next match at the same cursor must not be empty
  (the flag \<open>adv\<close>). No pattern of the source matches the empty string.
\<close>

definition first_match :: "regex \<Rightarrow> bool \<Rightarrow> string \<Rightarrow> string \<Rightarrow> (string \<times> string \<times> caps) option" where
  "first_match r adv b s =
     (case filter (\<lambda>(b', s', g). \<not> (adv \<and> length s' = length s)) (re_match r b s []) of
        [] \<Rightarrow> None
      | hit # _ \<Rightarrow> Some hit)"

lemma first_match_Some:
  assumes "first_match r adv b s = Some (b', s', g)"
  shows "length s' \<le> length s" and "adv \<Longrightarrow> length s' < length s"
proof -
  from assms obtain rest where
    "filter (\<lambda>(b', s', g). \<not> (adv \<and> length s' = length s)) (re_match r b s []) = (b', s', g) # rest"
    by (auto simp: first_match_def split: list.splits)
  then have "(b', s', g) \<in> set (filter (\<lambda>(b', s', g). \<not> (adv \<and> length s' = length s)) (re_match r b s []))"
    by simp
  then have m: "(b', s', g) \<in> set (re_match r b s [])" and n: "\<not> (adv \<and> length s' = length s)"
    by simp_all
  from re_match_length [OF m] show le: "length s' \<le> length s" .
  from le n show "adv \<Longrightarrow> length s' < length s" by simp
qed

function sub_loop :: "regex \<Rightarrow> template \<Rightarrow> bool \<Rightarrow> string \<Rightarrow> string \<Rightarrow> string" where
  "sub_loop r t adv b s =
     (case first_match r adv b s of
        Some (b', s', g) \<Rightarrow> expand t g @ sub_loop r t (length s' = length s) b' s'
      | None \<Rightarrow> (case s of [] \<Rightarrow> [] | x # xs \<Rightarrow> x # sub_loop r t False (x # b) xs))"
  by pat_completeness (simp only: prod.inject)
termination
proof (relation "measure (\<lambda>(r, t, adv, b, s). 2 * length s + (if adv then 0 else 1))", goal_cases)
  case 1
  show ?case by simp
next
  case 2
  then show ?case by simp
next
  case (3 r t adv b s hit b' rest s' g)
  then have "first_match r adv b s = Some (b', s', g)" by simp
  from first_match_Some [OF this] show ?case by (cases adv) auto
qed

definition re_sub :: "regex \<Rightarrow> template \<Rightarrow> string \<Rightarrow> string" where
  \<comment> \<open>\<open>re.sub(pattern, repl, string)\<close>\<close>
  "re_sub r t s = sub_loop r t False [] s"

function find_loop :: "regex \<Rightarrow> bool \<Rightarrow> string \<Rightarrow> string \<Rightarrow> string list" where
  "find_loop r adv b s =
     (case first_match r adv b s of
        Some (b', s', g) \<Rightarrow>
          rev (take (length b' - length b) b') # find_loop r (length s' = length s) b' s'
      | None \<Rightarrow> (case s of [] \<Rightarrow> [] | x # xs \<Rightarrow> find_loop r False (x # b) xs))"
  by pat_completeness (simp only: prod.inject)
termination
proof (relation "measure (\<lambda>(r, adv, b, s). 2 * length s + (if adv then 0 else 1))", goal_cases)
  case 1
  show ?case by simp
next
  case 2
  then show ?case by simp
next
  case (3 r adv b s hit b' rest s' g)
  then have "first_match r adv b s = Some (b', s', g)" by simp
  from first_match_Some [OF this] show ?case by (cases adv) auto
qed

definition re_findall :: "regex \<Rightarrow> string \<Rightarrow> string list" where
  \<comment> \<open>\<open>re.findall(pattern, string)\<close> for a pattern without groups: the matched texts\<close>
  "re_findall r s = find_loop r False [] s"

declare sub_loop.simps [simp del] find_loop.simps [simp del]

section \<open>The Checker\<close>

text \<open>
  The class reads its collaborators from outside the source file: the vocabulary and the
  embedding table from \<open>embed.vocab\<close> and \<open>embed.dat\<close>, the classifier from \<open>SVC.pkl\<close>, and
  the functions \<open>num_to_text\<close>, \<open>fuzz.ratio\<close>, \<open>cosine_similarity\<close> and \<open>emd\<close> from the modules it
  imports. They are the fields of the record; a theorem below holds for all of them unless
  it states a condition on one.
  Python floats are modelled as real numbers, so rounding is not part of the model.
  \<open>num_to_text\<close> is taken to return plain words: its result is inserted as it is.
\<close>

datatype error = KeyError string | ValueError

record checker =
  vocab_dict :: "string \<rightharpoonup> nat"
  embeddings :: "nat \<Rightarrow> real list"
  model_predict :: "real \<times> real \<times> real \<Rightarrow> string"
  num_to_text :: "string \<Rightarrow> string"
  fuzz_ratio :: "string \<Rightarrow> string \<Rightarrow> int"
  cosine_similarity :: "real list list \<Rightarrow> real list list"
  emd :: "real list \<Rightarrow> real list \<Rightarrow> real list list \<Rightarrow> real"

definition eps :: real where
  \<comment> \<open>\<open>self.eps = 1e-4\<close>\<close>
  "eps = 1 / 10000"

definition vocab_of :: "string list \<Rightarrow> (string \<rightharpoonup> nat)" where
  \<comment> \<open>\<open>{w: i for i, w in enumerate(vocab_list)}\<close>\<close>
  "vocab_of vocab_list = fold (\<lambda>(i, w) d. d(w \<mapsto> i)) (List.enumerate 0 vocab_list) Map.empty"

definition fillers :: "regex list" where
  "fillers =
    [Lit ''all right'',
     Lit ''alright'',
     Seqs [Plus (Chr CHR ''m''), Lit '' h'', Plus (Chr CHR ''m'')],
     Lit ''okay'',
     Lit ''right'',
     Lit ''uh huh'',
     Lit ''yeah'',
     Lit ''yes'',
     Lit ''yup'',
     Lit ''aha'',
     Seqs [Chr CHR ''o'', Plus (Chr CHR ''h'')],
     Seqs [Chr CHR ''h'', Plus (Chr CHR ''m'')],
     Seqs [Chr CHR ''m'', Plus (Chr CHR ''m'')],
     Seqs [Chr CHR ''u'', Plus (Chr CHR ''m'')],
     Lit ''actually'',
     Lit ''basically'',
     Lit ''i guess'',
     Lit ''i mean'',
     Lit ''i think'',
     Lit ''kinda'',
     Lit ''kind of'',
     Lit ''like'',
     Lit ''really'',
     Lit ''sorta'',
     Lit ''sort of'',
     Lit ''you know'',
     Lit ''a'',
     Lit ''an'',
     Lit ''the'',
     Lit ''and'',
     Lit ''in'',
     Lit ''it'',
     Lit ''of'',
     Lit ''on'',
     Lit ''or'',
     Lit ''so'',
     Lit ''that'',
     Lit ''to'',
     Lit ''am'',
     Lit ''excuse me'',
     Lit (''o'' @ [apos] @ ''clock''),
     Lit ''so to speak'',
     Lit (''that'' @ [apos] @ ''s good''),
     Seqs [Chr CHR ''s'', Plus digit]]"

definition metas :: "string list" where
  "metas =
    [''applause'',
     ''automated voice'',
     ''background conversation'',
     ''chuckle'',
     ''end paren'',
     ''foreign language'',
     ''laughter'',
     ''music'',
     ''noise'',
     ''overlapping conversation'',
     ''pause'',
     ''start paren'',
     ''video playback'',
     ''vocalization'']"

definition fillers_re :: regex where
  \<comment> \<open>\<open>self._fillers = "\\b"+"\\b|\\b".join(fillers)+"\\b"\<close>\<close>
  "fillers_re = Alts (map (\<lambda>f. Seqs [WordB, f, WordB]) fillers)"

definition metas_re :: regex where
  \<comment> \<open>\<open>self._metas = "\["+"\]|\[".join(metas)+"\]"\<close>\<close>
  "metas_re = Alts (map (\<lambda>m. Lit (''['' @ m @ '']'')) metas)"

subsection \<open>The metrics\<close>

fun lookup_all :: "(string \<rightharpoonup> nat) \<Rightarrow> string list \<Rightarrow> error + nat list" where
  \<comment> \<open>\<open>[self.vocab_dict[word] for word in words]\<close>: the first missing word raises \<open>KeyError\<close>\<close>
  "lookup_all d [] = Inr []"
| "lookup_all d (word # ws) =
     (case d word of
        None \<Rightarrow> Inl (KeyError word)
      | Some i \<Rightarrow> (case lookup_all d ws of Inl e \<Rightarrow> Inl e | Inr idx \<Rightarrow> Inr (i # idx)))"

definition indexer :: "checker \<Rightarrow> string \<Rightarrow> string \<Rightarrow> error + real" where
  "indexer ck string1 string2 =
     (let s1_features = split string1;
          s2_features = split string2
      in case lookup_all (vocab_dict ck) s1_features of
           Inl e \<Rightarrow> Inl e
         | Inr s1_idx \<Rightarrow>
             (case lookup_all (vocab_dict ck) s2_features of
                Inl e \<Rightarrow> Inl e
              | Inr s2_idx \<Rightarrow>
                  (let s1 = sum_list s1_idx;
                       s2 = sum_list s2_idx
                   in Inr (real_of_int (int s2 - int s1) / (real (s2 + s1) + eps)))))"

definition str_ratio :: "checker \<Rightarrow> string \<Rightarrow> string \<Rightarrow> int" where
  "str_ratio ck string1 string2 = fuzz_ratio ck string1 string2"

definition token_pattern :: regex where
  \<comment> \<open>\<open>[\w\']+\<close>\<close>
  "token_pattern = Plus (Cls (\<lambda>c. is_word c \<or> c = apos))"

definition analyze :: "string \<Rightarrow> string list" where
  \<comment> \<open>the analyzer of \<open>CountVectorizer\<close>: the document is lowercased, then the token pattern is found\<close>
  "analyze doc = re_findall token_pattern (lower doc)"

definition get_feature_names :: "string \<Rightarrow> string \<Rightarrow> string list" where
  \<comment> \<open>the fitted vocabulary of the two documents, sorted\<close>
  "get_feature_names string1 string2 = sort (remdups (analyze string1 @ analyze string2))"

definition transform :: "string list \<Rightarrow> string \<Rightarrow> real list" where
  \<comment> \<open>the count of every feature in the document\<close>
  "transform features doc = map (\<lambda>f. real (count_list (analyze doc) f)) features"

definition normalize :: "real list \<Rightarrow> real list" where
  \<comment> \<open>\<open>v /= (v.sum()+self.eps)\<close>\<close>
  "normalize v = map (\<lambda>x. x / (sum_list v + eps)) v"

definition flow_vectors :: "string \<Rightarrow> string \<Rightarrow> real list \<times> real list" where
  \<comment> \<open>\<open>v_1\<close> and \<open>v_2\<close> as they are passed to \<open>emd\<close>\<close>
  "flow_vectors string1 string2 =
     (let features = get_feature_names string1 string2
      in (normalize (transform features string1), normalize (transform features string2)))"

definition cosine_distance :: "checker \<Rightarrow> nat list \<Rightarrow> real list list" where
  \<comment> \<open>\<open>D_cosine = 1.-cosine_similarity(W_)\<close> for the rows \<open>W_\<close> of the embedding table\<close>
  "cosine_distance ck idx = map (map (\<lambda>x. 1 - x)) (cosine_similarity ck (map (embeddings ck) idx))"

definition wmd_getter :: "checker \<Rightarrow> string \<Rightarrow> string \<Rightarrow> error + real" where
  "wmd_getter ck string1 string2 =
     (let features = get_feature_names string1 string2
      in if features = [] then Inl ValueError
         else case lookup_all (vocab_dict ck) features of
                Inl e \<Rightarrow> Inl e
              | Inr idx \<Rightarrow>
                  (let (v_1, v_2) = flow_vectors string1 string2;
                       D_cosine = cosine_distance ck idx
                   in Inr (emd ck v_1 v_2 D_cosine)))"

definition generate :: "checker \<Rightarrow> string \<Rightarrow> string \<Rightarrow> error + real \<times> real \<times> real" where
  "generate ck str1 str2 =
     (case wmd_getter ck str1 str2 of
        Inl e \<Rightarrow> Inl e
      | Inr wmd \<Rightarrow>
          (case indexer ck str1 str2 of
             Inl e \<Rightarrow> Inl e
           | Inr idx \<Rightarrow> Inr (wmd, idx, real_of_int (str_ratio ck str1 str2))))"

subsection \<open>The cleaner\<close>

definition oov_clean :: "checker \<Rightarrow> string \<Rightarrow> string" where
  "oov_clean ck string = join '' '' (filter (\<lambda>word. vocab_dict ck word \<noteq> None) (split string))"

definition num_replace :: "checker \<Rightarrow> string \<Rightarrow> string" where
  "num_replace ck string =
     (let nums = re_findall (Plus digit) string;
          words = map (\<lambda>num. '' '' @ num_to_text ck num @ '' '') nums
      in fold (\<lambda>(num, word) string. re_sub (Lit num) [TLit word] string) (zip nums words) string)"

text \<open>
  The substitutions of \<open>_cleaner\<close>, each a pattern and its replacement, in four groups:
  timestamps \<open>\[*\d:\d+:\d+.\d\]*\<close>, dashes and colons \<open>-|:\<close>, metas, and the characters
  \<open>[^a-z0-9 ']\<close>; the casual and contracted forms from \<open>'til{1,2}\<close> to \<open>'d\b\<close>, where
  \<open>(d|g)oin'\<close> becomes \<open>\g<1>oing\<close> and a space; the ordinals, where \<open>(\d*)(1st)\<close> becomes
  \<open>\g<1>0 first\<close> and \<open>(\d+)(th)\<close> becomes \<open>\g<1>\<close>; and the fillers.
\<close>

definition timestamp_rules :: "(regex \<times> template) list" where
  "timestamp_rules =
    [(Seqs [Star (Chr CHR ''[''), digit, Chr CHR '':'', Plus digit, Chr CHR '':'', Plus digit,
            any_char, digit, Star (Chr CHR '']'')], []),
     (Alt (Chr CHR ''-'') (Chr CHR '':''), [TLit '' '']),
     (metas_re, []),
     (Cls (\<lambda>c. \<not> (is_lower c \<or> is_digit c \<or> c = CHR '' '' \<or> c = apos)), [])]"

definition contraction_rules :: "(regex \<times> template) list" where
  "contraction_rules =
    [(Seqs [Chr apos, Lit ''ti'', Chr CHR ''l'', Opt (Chr CHR ''l'')], [TLit ''until'']),
     (Seqs [Chr apos, Lit ''em''], [TLit ''them'']),
     (Seqs [Chr apos, Lit ''cause''], [TLit ''because'']),
     (Seqs [Group 1 (Alt (Chr CHR ''d'') (Chr CHR ''g'')), Lit ''oin'', Chr apos],
      [TGroup 1, TLit ''oing '']),
     (Seqs [Chr apos, Lit ''m''], [TLit '' am'']),
     (Seqs [Chr apos, Lit ''ve''], [TLit '' have'']),
     (Seqs [Chr apos, Lit ''ll''], [TLit '' will'']),
     (Seqs [Lit ''can'', Chr apos, Lit ''t''], [TLit ''cannot'']),
     (Seqs [Lit ''won'', Chr apos, Lit ''t''], [TLit ''will not'']),
     (Seqs [Lit ''ain'', Chr apos, Lit ''t''], [TLit ''are not'']),
     (Seqs [Lit ''n'', Chr apos, Lit ''t''], [TLit '' not'']),
     (Seqs [Chr apos, Lit ''s'', WordB], []),
     (Seqs [Chr apos, Lit ''d'', WordB], [])]"

definition ordinal_rules :: "(regex \<times> template) list" where
  "ordinal_rules =
    [(Seqs [Group 1 (Star digit), Group 2 (Lit ''1st'')], [TGroup 1, TLit ''0 first'']),
     (Seqs [Group 1 (Star digit), Group 2 (Lit ''2nd'')], [TGroup 1, TLit ''0 second'']),
     (Seqs [Group 1 (Star digit), Group 2 (Lit ''3rd'')], [TGroup 1, TLit ''0 third'']),
     (Seqs [Group 1 (Plus digit), Group 2 (Lit ''th'')], [TGroup 1])]"

definition filler_rules :: "(regex \<times> template) list" where
  "filler_rules = [(fillers_re, [])]"

definition cleaner_rules :: "(regex \<times> template) list" where
  \<comment> \<open>the substitutions of \<open>_cleaner\<close>, in the order of the source\<close>
  "cleaner_rules = timestamp_rules @ contraction_rules @ ordinal_rules @ filler_rules"

definition substitute :: "(regex \<times> template) list \<Rightarrow> string \<Rightarrow> string" where
  \<comment> \<open>\<open>text = re.sub(pattern, repl, text)\<close> for every rule in turn\<close>
  "substitute rules text = fold (\<lambda>(pattern, repl) text. re_sub pattern repl text) rules text"

definition clean_with :: "(regex \<times> template) list \<Rightarrow> checker \<Rightarrow> string \<Rightarrow> string" where
  "clean_with rules ck text = oov_clean ck (num_replace ck (substitute rules (lower text)))"

definition clean :: "checker \<Rightarrow> string \<Rightarrow> string" where
  \<comment> \<open>the body of the loop of \<open>_cleaner\<close>\<close>
  "clean ck text = clean_with cleaner_rules ck text"

definition cleaner :: "checker \<Rightarrow> string list \<Rightarrow> string list" where
  "cleaner ck strings = map (clean ck) strings"

subsection \<open>Prediction\<close>

text \<open>
  \<open>predict_row\<close> is the body of the loop of \<open>predict\<close>. Next to the label it returns the calls
  it made to \<open>_generate\<close> and to the classifier, in order.
\<close>

datatype call = Generate string string | Predict "real \<times> real \<times> real"

definition predict_row :: "checker \<Rightarrow> string \<times> string \<Rightarrow> call list \<times> (error + string)" where
  "predict_row ck raw =
     (let row = cleaner ck [fst raw, snd raw];
          s1 = row ! 0;
          s2 = row ! 1
      in if s2 = [] then ([], Inr ''1'')
         else if s1 = [] then ([], Inr ''2'')
         else (case generate ck s1 s2 of
                 Inl e \<Rightarrow> ([Generate s1 s2], Inl e)
               | Inr values \<Rightarrow>
                   ([Generate s1 s2, Predict values], Inr (model_predict ck values))))"

fun predictions :: "checker \<Rightarrow> (string \<times> string) list \<Rightarrow> error + string list" where
  "predictions ck [] = Inr []"
| "predictions ck (raw # rows) =
     (case snd (predict_row ck raw) of
        Inl e \<Rightarrow> Inl e
      | Inr label \<Rightarrow> (case predictions ck rows of Inl e \<Rightarrow> Inl e | Inr ls \<Rightarrow> Inr (label # ls)))"

definition predict :: "checker \<Rightarrow> (string \<times> string) list \<Rightarrow> error + string" where
  \<comment> \<open>the printed line\<close>
  "predict ck rows = (case predictions ck rows of Inl e \<Rightarrow> Inl e | Inr ls \<Rightarrow> Inr (join '','' ls))"

subsection \<open>Specification vocabulary\<close>

definition strip :: "string \<Rightarrow> string" where
  \<comment> \<open>\<open>str.strip()\<close>: the string without leading and trailing whitespace\<close>
  "strip s = rev (dropWhile is_space (rev (dropWhile is_space s)))"

definition token :: "string \<Rightarrow> bool" where
  \<comment> \<open>a word as \<open>split\<close> returns it: not empty and free of whitespace\<close>
  "token w = (w \<noteq> [] \<and> list_all (\<lambda>c. \<not> is_space c) w)"

definition in_vocab :: "checker \<Rightarrow> string \<Rightarrow> bool" where
  \<comment> \<open>the word is a key of the vocabulary\<close>
  "in_vocab ck word = (vocab_dict ck word \<noteq> None)"

definition index_sum :: "checker \<Rightarrow> string \<Rightarrow> real" where
  \<comment> \<open>the sum of the vocabulary indices of the tokens of a string\<close>
  "index_sum ck string =
     real (sum_list (map (\<lambda>word. case vocab_dict ck word of Some i \<Rightarrow> i | None \<Rightarrow> 0)
                         (split string)))"

function num_replace_spec :: "(string \<Rightarrow> string) \<Rightarrow> string \<Rightarrow> string" where
  \<comment> \<open>the number expander as the specification words it: every maximal digit run is replaced
      in place by its expansion between two spaces, everything else is kept\<close>
  "num_replace_spec expand_number [] = []"
| "num_replace_spec expand_number (c # cs) =
     (if is_digit c
      then '' '' @ expand_number (c # takeWhile is_digit cs) @ '' ''
           @ num_replace_spec expand_number (dropWhile is_digit cs)
      else c # num_replace_spec expand_number cs)"
  by pat_completeness auto
termination
  by (relation "measure (\<lambda>(n, s). length s)") (auto simp: length_dropWhile_le less_Suc_eq_le)

definition swapped_rules :: "(regex \<times> template) list" where
  \<comment> \<open>the rules with the fillers and the contractions in each other's place\<close>
  "swapped_rules = timestamp_rules @ filler_rules @ ordinal_rules @ contraction_rules"

definition fillers_first_rules :: "(regex \<times> template) list" where
  \<comment> \<open>the rules with the fillers moved in front of the contractions\<close>
  "fillers_first_rules = timestamp_rules @ filler_rules @ contraction_rules @ ordinal_rules"

definition clean_char :: "char \<Rightarrow> bool" where
  \<comment> \<open>the characters the cleaner keeps: \<open>a-z\<close>, \<open>0-9\<close>, the apostrophe and the space\<close>
  "clean_char c = (is_lower c \<or> is_digit c \<or> c = apos \<or> c = CHR '' '')"

definition clean_chars :: string where
  "clean_chars = ''abcdefghijklmnopqrstuvwxyz'' @ ''0123456789'' @ [apos, CHR '' '']"

definition token_char :: "char \<Rightarrow> bool" where
  \<comment> \<open>the characters of the class \<open>[\w']\<close>\<close>
  "token_char c = (is_word c \<or> c = apos)"

function runs :: "(char \<Rightarrow> bool) \<Rightarrow> string \<Rightarrow> string list" where
  \<comment> \<open>the maximal runs of the characters that satisfy \<open>P\<close>\<close>
  "runs P [] = []"
| "runs P (c # cs) =
     (if P c then (c # takeWhile P cs) # runs P (dropWhile P cs) else runs P cs)"
  by pat_completeness auto
termination
  by (relation "measure (\<lambda>(P, s). length s)") (auto simp: length_dropWhile_le less_Suc_eq_le)






subsection \<open>A sample checker\<close>

text \<open>
  The concrete examples below run the model on a small checker: a vocabulary of a few words,
  a speller of the numbers below one hundred in the place of \<open>num_to_text\<close>, and constant
  functions in the place of the numeric collaborators.
\<close>

definition units :: "string list" where
  "units = [''zero'', ''one'', ''two'', ''three'', ''four'', ''five'', ''six'', ''seven'', ''eight'',
            ''nine'', ''ten'', ''eleven'', ''twelve'', ''thirteen'', ''fourteen'', ''fifteen'',
            ''sixteen'', ''seventeen'', ''eighteen'', ''nineteen'']"

definition tens :: "string list" where
  "tens = ['''', '''', ''twenty'', ''thirty'', ''forty'', ''fifty'', ''sixty'', ''seventy'',
           ''eighty'', ''ninety'']"

definition digit_value :: "char \<Rightarrow> nat" where
  "digit_value c = length (takeWhile (\<lambda>d. d \<noteq> c) ''0123456789'')"

definition spell :: "string \<Rightarrow> string" where
  "spell num =
     (let n = foldl (\<lambda>a c. 10 * a + digit_value c) 0 num
      in if n < 20 then units ! n
         else if n < 100
           then tens ! (n div 10) @ (if n mod 10 = 0 then [] else '' '' @ units ! (n mod 10))
         else join '' '' (map (\<lambda>c. units ! digit_value c) num))"

definition demo :: checker where
  "demo =
     \<lparr> vocab_dict = vocab_of [''hello'', ''world'', ''you'', ''know'', ''i'', ''am'', ''one'',
                              ''two'', ''twelve'', ''2''],
       embeddings = (\<lambda>i. []),
       model_predict = (\<lambda>values. ''2''),
       num_to_text = spell,
       fuzz_ratio = (\<lambda>string1 string2. 0),
       cosine_similarity = (\<lambda>W. []),
       emd = (\<lambda>v_1 v_2 D. 0) \<rparr>"



definition hyphen_demo :: checker where
  \<comment> \<open>the sample checker with a hyphenated word in its vocabulary\<close>
  "hyphen_demo = demo\<lparr>vocab_dict := vocab_of [''hello'', ''twenty-one'']\<rparr>"

section \<open>Properties\<close>

subsection \<open>Splitting and joining\<close>

lemma is_space_space: "is_space CHR '' ''"
  by (simp add: is_space_def)

lemma split_tokens: "list_all token (split s)"
proof (induction s rule: split.induct)
  case 1
  show ?case by simp
next
  case (2 c cs)
  show ?case
  proof (cases "is_space c")
    case True
    with 2 show ?thesis by simp
  next
    case False
    have "list_all (\<lambda>c. \<not> is_space c) (takeWhile (\<lambda>x. \<not> is_space x) cs)"
      by (auto simp: list_all_iff dest: set_takeWhileD)
    with False 2 show ?thesis by (simp add: token_def)
  qed
qed

lemma split_token_append:
  assumes "token w"
  shows "split (w @ CHR '' '' # r) = w # split r" and "split w = [w]"
proof -
  from assms obtain c cs where w: "w = c # cs" and c: "\<not> is_space c"
    and cs: "\<forall>x\<in>set cs. \<not> is_space x"
    by (cases w) (auto simp: token_def list_all_iff)
  from cs have t1: "takeWhile (\<lambda>x. \<not> is_space x) (cs @ CHR '' '' # r) = cs"
    by (simp add: is_space_space)
  from cs have d1: "dropWhile (\<lambda>x. \<not> is_space x) (cs @ CHR '' '' # r) = CHR '' '' # r"
    by (simp add: is_space_space)
  from cs have t2: "takeWhile (\<lambda>x. \<not> is_space x) cs = cs" by simp
  from cs have d2: "dropWhile (\<lambda>x. \<not> is_space x) cs = []" by simp
  show "split (w @ CHR '' '' # r) = w # split r"
    by (simp add: w c t1 d1 is_space_space)
  show "split w = [w]"
    by (simp add: w c t2 d2)
qed

lemma split_join: "list_all token ws \<Longrightarrow> split (join '' '' ws) = ws"
proof (induction "'' ''" ws rule: join.induct)
  case 1
  show ?case by simp
next
  case (2 w)
  then show ?case by (simp add: split_token_append)
next
  case (3 w v ws)
  then show ?case by (simp add: split_token_append)
qed

lemma join_ends:
  "list_all token ws \<Longrightarrow> ws \<noteq> [] \<Longrightarrow>
     join '' '' ws \<noteq> [] \<and> \<not> is_space (hd (join '' '' ws)) \<and> \<not> is_space (last (join '' '' ws))"
proof (induction "'' ''" ws rule: join.induct)
  case 1
  then show ?case by simp
next
  case (2 w)
  then show ?case by (cases w) (auto simp: token_def list_all_iff)
next
  case (3 w v ws)
  then show ?case by (cases w) (auto simp: token_def list_all_iff)
qed

lemma strip_join: "list_all token ws \<Longrightarrow> strip (join '' '' ws) = join '' '' ws"
proof (cases "ws = []")
  case True
  then show ?thesis by (simp add: strip_def)
next
  case False
  assume "list_all token ws"
  from join_ends [OF this False] obtain c cs where j: "join '' '' ws = c # cs"
    and h: "\<not> is_space c" and l: "\<not> is_space (last (c # cs))"
    by (cases "join '' '' ws") auto
  have "rev (c # cs) \<noteq> []" by simp
  then obtain d ds where r: "rev (c # cs) = d # ds" by (cases "rev (c # cs)") auto
  then have "d = last (c # cs)" by (metis list.sel(1) hd_rev)
  with l r have "dropWhile is_space (rev (c # cs)) = rev (c # cs)" by simp
  with h show ?thesis by (simp add: strip_def j)
qed

lemma oov_clean_tokens:
  "list_all token (filter (\<lambda>word. vocab_dict ck word \<noteq> None) (split string))"
  using split_tokens [of string] by (simp add: list_all_iff)

lemma split_oov_clean:
  "split (oov_clean ck string) = filter (\<lambda>word. vocab_dict ck word \<noteq> None) (split string)"
  unfolding oov_clean_def by (rule split_join [OF oov_clean_tokens])

subsection \<open>The vocabulary filter ends the cleaner\<close>

text \<open>
  C3. Every whitespace-separated token of a cleaned string is a key of the vocabulary: no
  out-of-vocabulary token appears in the output of the cleaner, whatever the input, the
  vocabulary and the number speller are.
\<close>

theorem clean_tokens_in_vocabulary:
  "w \<in> set (split (clean ck text)) \<Longrightarrow> w \<in> dom (vocab_dict ck)"
  by (auto simp: clean_def clean_with_def split_oov_clean)

theorem clean_tokens_in_vocabulary_witness:
  "''world'' \<in> set (split (clean demo ''Hello, World!'')) \<and> ''world'' \<in> dom (vocab_dict demo)"
proof -
  have h: "''world'' \<in> set (split (clean demo ''Hello, World!''))" by code_simp
  from h clean_tokens_in_vocabulary [OF h] show ?thesis by (rule conjI)
qed

text \<open>
  C10. The output of the cleaner is in canonical spacing form: it equals the single-space
  join of its own list of tokens, and it has no leading and no trailing whitespace.
\<close>

theorem clean_canonical_spacing:
  "join '' '' (split (clean ck text)) = clean ck text \<and> strip (clean ck text) = clean ck text"
proof
  show "join '' '' (split (clean ck text)) = clean ck text"
    unfolding clean_def clean_with_def split_oov_clean by (simp add: oov_clean_def)
  show "strip (clean ck text) = clean ck text"
    unfolding clean_def clean_with_def oov_clean_def by (rule strip_join [OF oov_clean_tokens])
qed

theorem clean_canonical_spacing_witness:
  "join '' '' (split (clean demo ''  Hello,   World! um  '')) = ''hello world'' \<and>
   strip (clean demo ''  Hello,   World! um  '') = ''hello world''"
proof -
  have v: "clean demo ''  Hello,   World! um  '' = ''hello world''" by code_simp
  from clean_canonical_spacing [of demo "''  Hello,   World! um  ''"] show ?thesis
    unfolding v .
qed

subsection \<open>Degenerate pairs\<close>

text \<open>
  C1. A pair whose second string cleans to the empty string is labelled "1", whatever the
  first string is; a pair whose second string does not clean to the empty string and whose
  first does is labelled "2". In both cases neither the metrics nor the classifier are
  called: the list of calls is empty. A pair of two strings that clean to the empty string
  falls under the first case.
\<close>

theorem predict_row_empty_strings:
  "(clean ck b = [] \<longrightarrow> predict_row ck (a, b) = ([], Inr ''1'')) \<and>
   (clean ck b \<noteq> [] \<and> clean ck a = [] \<longrightarrow> predict_row ck (a, b) = ([], Inr ''2''))"
  by (simp add: predict_row_def cleaner_def Let_def)

theorem predict_row_empty_strings_witness:
  "predict_row demo (''hello world'', '''') = ([], Inr ''1'') \<and>
   predict_row demo ('''', ''hello world'') = ([], Inr ''2'') \<and>
   predict_row demo ('''', '''') = ([], Inr ''1'')"
proof -
  have e: "clean demo '''' = []" by code_simp
  have n: "clean demo ''hello world'' \<noteq> []" by code_simp
  from predict_row_empty_strings [of demo "''''" "''hello world''"] e
  have 1: "predict_row demo (''hello world'', '''') = ([], Inr ''1'')" by simp
  from predict_row_empty_strings [of demo "''hello world''" "''''"] e n
  have 2: "predict_row demo ('''', ''hello world'') = ([], Inr ''2'')" by simp
  from predict_row_empty_strings [of demo "''''" "''''"] e
  have 3: "predict_row demo ('''', '''') = ([], Inr ''1'')" by simp
  from 1 2 3 show ?thesis by simp
qed

subsection \<open>The two tokenizers\<close>

lemma split_runs: "split s = runs (\<lambda>c. \<not> is_space c) s"
  by (induction s rule: split.induct) simp_all

lemma runs_cong: "(\<forall>c\<in>set s. P c = Q c) \<Longrightarrow> runs P s = runs Q s"
proof (induction P s rule: runs.induct)
  case (1 P)
  show ?case by simp
next
  case (2 P c cs)
  from "2.prems" have pq: "\<forall>x\<in>set cs. P x = Q x" and c: "P c = Q c" by simp_all
  from pq have t: "takeWhile P cs = takeWhile Q cs" by (intro takeWhile_cong) simp_all
  from pq have d: "dropWhile P cs = dropWhile Q cs" by (intro dropWhile_cong) simp_all
  show ?case
  proof (cases "P c")
    case True
    have "\<forall>x\<in>set (dropWhile P cs). P x = Q x" using pq by (meson set_dropWhileD)
    from "2.IH"(1) [OF True this] True c t d show ?thesis by simp
  next
    case False
    from "2.IH"(2) [OF False pq] False c show ?thesis by simp
  qed
qed

lemma star_first:
  "\<exists>rest. re_match (Star (Cls P)) b s g = (rev (takeWhile P s) @ b, dropWhile P s, g) # rest"
proof (induction s arbitrary: b)
  case Nil
  show ?case by (simp add: re_match.simps(7))
next
  case (Cons x xs)
  show ?case
  proof (cases "P x")
    case True
    from Cons [of "x # b"] obtain rest where
      "re_match (Star (Cls P)) (x # b) xs g = (rev (takeWhile P xs) @ x # b, dropWhile P xs, g) # rest"
      by blast
    with True show ?thesis by (simp add: re_match.simps(7) [of "Cls P" b "x # xs"])
  next
    case False
    then show ?thesis by (simp add: re_match.simps(7) [of "Cls P" b "x # xs"])
  qed
qed

lemma first_match_plus:
  "first_match (Plus (Cls P)) adv b s =
     (case s of [] \<Rightarrow> None
      | x # xs \<Rightarrow> if P x then Some (rev (takeWhile P xs) @ x # b, dropWhile P xs, []) else None)"
proof (cases s)
  case Nil
  then show ?thesis by (simp add: first_match_def Plus_def)
next
  case (Cons x xs)
  show ?thesis
  proof (cases "P x")
    case False
    with Cons show ?thesis by (simp add: first_match_def Plus_def)
  next
    case True
    from star_first [of P "x # b" xs "[]"] obtain rest where
      r: "re_match (Star (Cls P)) (x # b) xs [] = (rev (takeWhile P xs) @ x # b, dropWhile P xs, []) # rest"
      by blast
    have "length (dropWhile P xs) \<le> length xs" by (rule length_dropWhile_le)
    then have "length (dropWhile P xs) \<noteq> Suc (length xs)" by simp
    with Cons True r show ?thesis by (simp add: first_match_def Plus_def)
  qed
qed

lemma find_loop_runs: "find_loop (Plus (Cls P)) adv b s = runs P s"
proof (induction "Plus (Cls P)" adv b s rule: find_loop.induct)
  case (1 adv b s)
  show ?case
  proof (cases s)
    case Nil
    then show ?thesis by (subst find_loop.simps) (simp add: first_match_plus)
  next
    case (Cons x xs)
    show ?thesis
    proof (cases "P x")
      case True
      have fm: "first_match (Plus (Cls P)) adv b s =
          Some (rev (takeWhile P xs) @ x # b, dropWhile P xs, [])"
        using Cons True by (simp add: first_match_plus)
      from "1.hyps"(2) [OF fm refl refl]
      have "find_loop (Plus (Cls P)) (length (dropWhile P xs) = length s)
              (rev (takeWhile P xs) @ x # b) (dropWhile P xs) = runs P (dropWhile P xs)" .
      with fm Cons True show ?thesis by (subst find_loop.simps) simp
    next
      case False
      have fm: "first_match (Plus (Cls P)) adv b s = None"
        using Cons False by (simp add: first_match_plus)
      from "1.hyps"(1) [OF fm Cons]
      have "find_loop (Plus (Cls P)) False (x # b) xs = runs P xs" .
      with fm Cons False show ?thesis by (subst find_loop.simps) simp
    qed
  qed
qed

lemma list_allD: "list_all Q xs \<Longrightarrow> c \<in> set xs \<Longrightarrow> Q c"
  by (simp add: list_all_iff)

lemma mem_append3: "(c \<in> set A \<or> c \<in> set B \<or> c = x \<or> c = y) = (c \<in> set (A @ B @ [x, y]))"
  by auto

lemma clean_char_mem: "clean_char c = (c \<in> set clean_chars)"
  unfolding clean_char_def is_lower_def is_digit_def clean_chars_def by (rule mem_append3)

lemma clean_chars_lower: "list_all (\<lambda>c. lower_char c = c) clean_chars"
  by code_simp

lemma clean_chars_token: "list_all (\<lambda>c. token_char c = (\<not> is_space c)) clean_chars"
  by code_simp

lemma lower_clean: "list_all clean_char s \<Longrightarrow> lower s = s"
proof -
  have "lower_char c = c" if "clean_char c" for c
    using that unfolding clean_char_mem by (rule list_allD [OF clean_chars_lower])
  then show "list_all clean_char s \<Longrightarrow> lower s = s"
    by (simp add: lower_def list_all_iff map_idI)
qed

lemma analyze_clean: "list_all clean_char s \<Longrightarrow> analyze s = split s"
proof -
  assume h: "list_all clean_char s"
  have "token_char c = (\<not> is_space c)" if "clean_char c" for c
    using that unfolding clean_char_mem by (rule list_allD [OF clean_chars_token])
  with h have "\<forall>c\<in>set s. token_char c = (\<not> is_space c)" by (simp add: list_all_iff)
  then have "runs token_char s = runs (\<lambda>c. \<not> is_space c) s" by (rule runs_cong)
  moreover have "(\<lambda>c. is_word c \<or> c = apos) = token_char"
    by (simp add: token_char_def fun_eq_iff)
  ultimately show ?thesis using h
    by (simp add: analyze_def token_pattern_def re_findall_def lower_clean split_runs
        find_loop_runs)
qed

lemma feature_names_clean:
  assumes "list_all clean_char a" and "list_all clean_char b"
  shows "set (get_feature_names a b) = set (split a @ split b)"
  by (simp add: get_feature_names_def analyze_clean [OF assms(1)] analyze_clean [OF assms(2)])

subsection \<open>Missing vocabulary entries\<close>

lemma lookup_all_present:
  "list_all (\<lambda>w. d w \<noteq> None) ws \<Longrightarrow>
     lookup_all d ws = Inr (map (\<lambda>w. case d w of Some i \<Rightarrow> i | None \<Rightarrow> 0) ws)"
  by (induction ws) auto

lemma lookup_all_missing:
  "\<not> list_all (\<lambda>w. d w \<noteq> None) ws \<Longrightarrow>
     \<exists>w. w \<in> set ws \<and> d w = None \<and> lookup_all d ws = Inl (KeyError w)"
proof (induction ws)
  case Nil
  then show ?case by simp
next
  case (Cons a ws)
  show ?case
  proof (cases "d a")
    case None
    then show ?thesis by auto
  next
    case (Some i)
    with Cons.prems have "\<not> list_all (\<lambda>w. d w \<noteq> None) ws" by simp
    from Cons.IH [OF this] obtain w where
      "w \<in> set ws" "d w = None" "lookup_all d ws = Inl (KeyError w)"
      by blast
    with Some show ?thesis by auto
  qed
qed

lemma indexer_present:
  assumes "list_all (in_vocab ck) (split a @ split b)"
  shows "indexer ck a b =
    Inr ((index_sum ck b - index_sum ck a) / (index_sum ck a + index_sum ck b + eps))"
proof -
  from assms have a: "list_all (\<lambda>w. vocab_dict ck w \<noteq> None) (split a)"
    and b: "list_all (\<lambda>w. vocab_dict ck w \<noteq> None) (split b)"
    by (simp_all add: in_vocab_def list_all_iff)
  show ?thesis
    by (simp add: indexer_def Let_def lookup_all_present [OF a] lookup_all_present [OF b]
        index_sum_def add.commute)
qed

lemma indexer_missing:
  assumes "\<not> list_all (in_vocab ck) (split a @ split b)"
  shows "\<exists>w. w \<in> set (split a @ split b) \<and> vocab_dict ck w = None \<and>
             indexer ck a b = Inl (KeyError w)"
proof (cases "list_all (\<lambda>w. vocab_dict ck w \<noteq> None) (split a)")
  case False
  from lookup_all_missing [OF this] show ?thesis
    by (auto simp: indexer_def Let_def)
next
  case True
  with assms have "\<not> list_all (\<lambda>w. vocab_dict ck w \<noteq> None) (split b)"
    by (fastforce simp: in_vocab_def list_all_iff)
  from lookup_all_missing [OF this] show ?thesis
    by (auto simp: indexer_def Let_def lookup_all_present [OF True])
qed

lemma wmd_getter_missing:
  assumes "\<not> list_all (in_vocab ck) (get_feature_names a b)"
  shows "\<exists>w. w \<in> set (get_feature_names a b) \<and> vocab_dict ck w = None \<and>
             wmd_getter ck a b = Inl (KeyError w)"
proof -
  from assms have ne: "get_feature_names a b \<noteq> []" by auto
  from assms have "\<not> list_all (\<lambda>w. vocab_dict ck w \<noteq> None) (get_feature_names a b)"
    by (simp add: in_vocab_def list_all_iff)
  from lookup_all_missing [OF this] ne show ?thesis
    by (auto simp: wmd_getter_def Let_def)
qed

lemma wmd_getter_present:
  assumes "list_all (in_vocab ck) (get_feature_names a b)"
  shows "wmd_getter ck a b \<noteq> Inl (KeyError w)"
proof -
  from assms have "list_all (\<lambda>w. vocab_dict ck w \<noteq> None) (get_feature_names a b)"
    by (simp add: in_vocab_def list_all_iff)
  from lookup_all_present [OF this] show ?thesis
    by (simp add: wmd_getter_def Let_def split: prod.splits)
qed

text \<open>
  C4, as the code has it. Both metrics look every token up with \<open>self.vocab_dict[word]\<close> and
  never put a default in the place of a missing word, but they do not read the same tokens.
  The index ratio reads the whitespace-separated tokens of the two strings: if one of them is
  not in the vocabulary it fails with a \<open>KeyError\<close> that names a missing token, and if all are
  in the vocabulary it returns a value. The word mover's distance reads the features of its
  vectorizer, the maximal runs of word characters and apostrophes of the lowercased strings:
  if one of them is not in the vocabulary it fails with a \<open>KeyError\<close> that names a missing
  feature, and if all are in the vocabulary it raises no \<open>KeyError\<close>. On strings of the
  characters the cleaner keeps (lowercase letters, digits, apostrophes and spaces) the features
  are the whitespace-separated tokens.
\<close>

theorem metrics_key_error:
  "(\<not> list_all (in_vocab ck) (split a @ split b) \<longrightarrow>
      (\<exists>w. w \<in> set (split a @ split b) \<and> vocab_dict ck w = None \<and>
           indexer ck a b = Inl (KeyError w))) \<and>
   (list_all (in_vocab ck) (split a @ split b) \<longrightarrow> (\<exists>x. indexer ck a b = Inr x)) \<and>
   (\<not> list_all (in_vocab ck) (get_feature_names a b) \<longrightarrow>
      (\<exists>w. w \<in> set (get_feature_names a b) \<and> vocab_dict ck w = None \<and>
           wmd_getter ck a b = Inl (KeyError w))) \<and>
   (list_all (in_vocab ck) (get_feature_names a b) \<longrightarrow>
      (\<forall>w. wmd_getter ck a b \<noteq> Inl (KeyError w))) \<and>
   (list_all clean_char a \<and> list_all clean_char b \<longrightarrow>
      set (get_feature_names a b) = set (split a @ split b))"
  using indexer_missing [of ck a b] indexer_present [of ck a b]
    wmd_getter_missing [of ck a b] wmd_getter_present [of ck a b]
    feature_names_clean [of a b]
  by blast

theorem metrics_key_error_witness:
  "(\<exists>w. indexer demo ''hello world'' ''hello there'' = Inl (KeyError w)) \<and>
   (\<exists>x. indexer demo ''hello'' ''world'' = Inr x) \<and>
   (\<exists>w. wmd_getter demo ''hello world'' ''hello there'' = Inl (KeyError w)) \<and>
   (\<forall>w. wmd_getter demo ''hello'' ''world'' \<noteq> Inl (KeyError w)) \<and>
   set (get_feature_names ''hello'' ''world'') = set (split ''hello'' @ split ''world'')"
proof -
  have 1: "\<not> list_all (in_vocab demo) (split ''hello world'' @ split ''hello there'')"
    by code_simp
  have 2: "list_all (in_vocab demo) (split ''hello'' @ split ''world'')"
    by code_simp
  have 3: "\<not> list_all (in_vocab demo) (get_feature_names ''hello world'' ''hello there'')"
    by code_simp
  have 4: "list_all (in_vocab demo) (get_feature_names ''hello'' ''world'')"
    by code_simp
  have 5: "list_all clean_char ''hello''" "list_all clean_char ''world''"
    by code_simp+
  from metrics_key_error [of demo "''hello world''" "''hello there''"] 1 3
  have "(\<exists>w. indexer demo ''hello world'' ''hello there'' = Inl (KeyError w)) \<and>
        (\<exists>w. wmd_getter demo ''hello world'' ''hello there'' = Inl (KeyError w))"
    by blast
  moreover from metrics_key_error [of demo "''hello''" "''world''"] 2 4 5
  have "(\<exists>x. indexer demo ''hello'' ''world'' = Inr x) \<and>
        (\<forall>w. wmd_getter demo ''hello'' ''world'' \<noteq> Inl (KeyError w)) \<and>
        set (get_feature_names ''hello'' ''world'') = set (split ''hello'' @ split ''world'')"
    by blast
  ultimately show ?thesis by blast
qed

text \<open>
  For strings with other characters the two sets of tokens differ, and C4 as stated fails in
  both directions. The token \<open>Hello\<close> is not in the sample vocabulary, and the index ratio
  fails on it, but the word mover's distance looks \<open>hello\<close> up and returns a value. With
  \<open>twenty-one\<close> in the vocabulary every token of \<open>twenty-one\<close> and \<open>hello\<close> is a key, but
  the word mover's distance looks \<open>one\<close> up and fails.
\<close>

theorem wmd_tokens_are_not_split_tokens:
  "''Hello'' \<in> set (split ''Hello'' @ split ''world'') \<and> vocab_dict demo ''Hello'' = None \<and>
   indexer demo ''Hello'' ''world'' = Inl (KeyError ''Hello'') \<and>
   wmd_getter demo ''Hello'' ''world'' = Inr 0 \<and>
   list_all (in_vocab hyphen_demo) (split ''twenty-one'' @ split ''hello'') \<and>
   wmd_getter hyphen_demo ''twenty-one'' ''hello'' = Inl (KeyError ''one'')"
proof -
  have 1: "''Hello'' \<in> set (split ''Hello'' @ split ''world'')" by code_simp
  have 2: "vocab_dict demo ''Hello'' = None" by code_simp
  have 3: "indexer demo ''Hello'' ''world'' = Inl (KeyError ''Hello'')" by code_simp
  have f: "get_feature_names ''Hello'' ''world'' = [''hello'', ''world'']" by code_simp
  have l: "lookup_all (vocab_dict demo) [''hello'', ''world''] = Inr [0, 1]" by code_simp
  have 4: "wmd_getter demo ''Hello'' ''world'' = Inr 0"
    unfolding wmd_getter_def Let_def f l by (simp add: demo_def split: prod.splits)
  have 5: "list_all (in_vocab hyphen_demo) (split ''twenty-one'' @ split ''hello'')" by code_simp
  have 6: "wmd_getter hyphen_demo ''twenty-one'' ''hello'' = Inl (KeyError ''one'')" by code_simp
  from 1 2 3 4 5 6 show ?thesis by simp
qed

subsection \<open>The index ratio\<close>

text \<open>
  C5. For two strings whose tokens are all in the vocabulary, the index ratio is
  \<open>(sum2 - sum1) / (sum1 + sum2 + eps)\<close>, where \<open>sum1\<close> and \<open>sum2\<close> are the sums of the
  vocabulary indices of the tokens of the first and of the second string and \<open>eps\<close> is
  \<open>1e-4\<close>; exchanging the two strings negates it.
\<close>

theorem indexer_ratio_antisymmetric:
  "list_all (in_vocab ck) (split a @ split b) \<Longrightarrow>
     indexer ck a b =
       Inr ((index_sum ck b - index_sum ck a) / (index_sum ck a + index_sum ck b + eps)) \<and>
     indexer ck b a =
       Inr (- ((index_sum ck b - index_sum ck a) / (index_sum ck a + index_sum ck b + eps)))"
proof
  assume h: "list_all (in_vocab ck) (split a @ split b)"
  then have h': "list_all (in_vocab ck) (split b @ split a)" by (auto simp: list_all_iff)
  show "indexer ck a b =
      Inr ((index_sum ck b - index_sum ck a) / (index_sum ck a + index_sum ck b + eps))"
    by (rule indexer_present [OF h])
  have "(index_sum ck a - index_sum ck b) / (index_sum ck b + index_sum ck a + eps) =
        - ((index_sum ck b - index_sum ck a) / (index_sum ck a + index_sum ck b + eps))"
    by (simp add: add.commute minus_divide_left)
  with indexer_present [OF h']
  show "indexer ck b a =
      Inr (- ((index_sum ck b - index_sum ck a) / (index_sum ck a + index_sum ck b + eps)))"
    by simp
qed

theorem indexer_ratio_antisymmetric_witness:
  "indexer demo ''hello'' ''you world'' = Inr (30000 / 30001) \<and>
   indexer demo ''you world'' ''hello'' = Inr (- (30000 / 30001))"
proof -
  have h: "list_all (in_vocab demo) (split ''hello'' @ split ''you world'')" by code_simp
  have "sum_list (map (\<lambda>word. case vocab_dict demo word of Some i \<Rightarrow> i | None \<Rightarrow> 0)
                      (split ''hello'')) = 0"
    by code_simp
  then have a: "index_sum demo ''hello'' = 0" by (simp add: index_sum_def)
  have "sum_list (map (\<lambda>word. case vocab_dict demo word of Some i \<Rightarrow> i | None \<Rightarrow> 0)
                      (split ''you world'')) = 3"
    by code_simp
  then have b: "index_sum demo ''you world'' = 3" by (simp add: index_sum_def)
  from indexer_ratio_antisymmetric [OF h] show ?thesis
    by (simp add: a b eps_def)
qed

subsection \<open>The flow vectors\<close>

lemma normalize_sum: "sum_list (normalize v) = sum_list v / (sum_list v + eps)"
proof -
  have "sum_list (map (\<lambda>x. x / c) v) = sum_list v / c" for c :: real
    by (induction v) (simp_all add: add_divide_distrib)
  then show ?thesis by (simp add: normalize_def)
qed

lemma transform_sum:
  "sum_list (transform (get_feature_names a b) a) = real (length (analyze a))"
  "sum_list (transform (get_feature_names a b) b) = real (length (analyze b))"
proof -
  have d: "distinct (get_feature_names a b)" by (simp add: get_feature_names_def)
  have s: "set (get_feature_names a b) = set (analyze a) \<union> set (analyze b)"
    by (simp add: get_feature_names_def)
  have "sum_list (map (\<lambda>f. real (count_list xs f)) (get_feature_names a b)) = real (length xs)"
    if "set xs \<subseteq> set (get_feature_names a b)" for xs
  proof -
    have "sum_list (map (\<lambda>f. real (count_list xs f)) (get_feature_names a b))
          = real (sum (count_list xs) (set (get_feature_names a b)))"
      by (simp add: sum_list_distinct_conv_sum_set [OF d])
    also have "sum (count_list xs) (set (get_feature_names a b)) = length xs"
      by (rule sum_count_set [OF that]) simp
    finally show ?thesis .
  qed
  from this [of "analyze a"] this [of "analyze b"] s
  show "sum_list (transform (get_feature_names a b) a) = real (length (analyze a))"
    "sum_list (transform (get_feature_names a b) b) = real (length (analyze b))"
    by (simp_all add: transform_def)
qed

lemma flow_vectors_sum:
  "sum_list (fst (flow_vectors a b)) =
     real (length (analyze a)) / (real (length (analyze a)) + eps)"
  "sum_list (snd (flow_vectors a b)) =
     real (length (analyze b)) / (real (length (analyze b)) + eps)"
  by (simp_all add: flow_vectors_def Let_def normalize_sum transform_sum)

lemma below_one: "real n / (real n + eps) < 1"
proof -
  have "0 < eps" by (simp add: eps_def)
  then have "0 < real n + eps" by (simp add: add_nonneg_pos)
  with \<open>0 < eps\<close> show ?thesis by (simp add: divide_less_eq)
qed

text \<open>
  C6, as the code has it. After the normalization each of the two frequency vectors sums to
  \<open>n / (n + eps)\<close>, where \<open>n\<close> is the number of tokens of its string: the sum stays below 1,
  because \<open>eps\<close> is added to the denominator. For the strings \<open>hello world\<close> and \<open>hello\<close> the
  first vector sums to \<open>20000 / 20001\<close>.
\<close>

theorem flow_vectors_sum_below_one:
  "sum_list (fst (flow_vectors a b)) =
     real (length (analyze a)) / (real (length (analyze a)) + eps) \<and>
   sum_list (snd (flow_vectors a b)) =
     real (length (analyze b)) / (real (length (analyze b)) + eps) \<and>
   sum_list (fst (flow_vectors a b)) < 1 \<and> sum_list (snd (flow_vectors a b)) < 1"
  by (simp add: flow_vectors_sum below_one)

theorem flow_vectors_sum_not_one:
  "sum_list (fst (flow_vectors ''hello world'' ''hello'')) = 20000 / 20001 \<and>
   sum_list (fst (flow_vectors ''hello world'' ''hello'')) \<noteq> 1"
proof -
  have "length (analyze ''hello world'') = 2" by code_simp
  then show ?thesis by (simp add: flow_vectors_sum(1) eps_def)
qed

subsection \<open>The transport problem\<close>






















subsection \<open>The number expander\<close>

text \<open>
  C2 fails on the code. \<open>_num_replace\<close> collects the digit runs first and then substitutes
  each run as a pattern in the whole string, so a run also matches inside a longer run that
  comes later. In \<open>1 12\<close> the substitution of \<open>1\<close> rewrites the \<open>1\<close> of \<open>12\<close>; the
  run \<open>12\<close> is spelled \<open>one 2\<close> and a digit is left in the result, where the expansion
  of every maximal run gives \<open>one\<close> and \<open>twelve\<close>.
\<close>

theorem num_replace_breaks_later_run:
  "num_replace demo ''1 12'' = '' one   one 2'' \<and>
   num_replace_spec (num_to_text demo) ''1 12'' = '' one   twelve ''"
  by code_simp

lemma num_replace_single_run:
  "num_replace demo ''i have 21 apples'' = ''i have  twenty one  apples'' \<and>
   num_replace_spec (num_to_text demo) ''i have 21 apples'' = ''i have  twenty one  apples''"
  by code_simp

subsection \<open>Cleaning twice\<close>

lemma find_none_sub: "find_loop r adv b s = [] \<Longrightarrow> sub_loop r t adv b s = s"
proof (induction r t adv b s rule: sub_loop.induct)
  case (1 r t adv b s)
  show ?case
  proof (cases "first_match r adv b s")
    case None
    show ?thesis
    proof (cases s)
      case Nil
      with None show ?thesis by (subst sub_loop.simps) simp
    next
      case (Cons x xs)
      from "1.prems" None Cons have "find_loop r False (x # b) xs = []"
        by (subst (asm) find_loop.simps) simp
      from "1.IH"(1) [OF None Cons this] have "sub_loop r t False (x # b) xs = xs" .
      with None Cons show ?thesis by (subst sub_loop.simps) simp
    qed
  next
    case (Some hit)
    with "1.prems" show ?thesis by (subst (asm) find_loop.simps) (simp split: prod.splits)
  qed
qed

lemma re_sub_unchanged: "re_findall r s = [] \<Longrightarrow> re_sub r t s = s"
  by (simp add: re_findall_def re_sub_def find_none_sub)

lemma substitute_unchanged:
  "list_all (\<lambda>(pattern, repl). re_findall pattern s = []) rules \<Longrightarrow> substitute rules s = s"
  unfolding substitute_def by (induction rules) (auto simp: re_sub_unchanged)

lemma num_replace_unchanged: "re_findall (Plus digit) s = [] \<Longrightarrow> num_replace ck s = s"
  by (simp add: num_replace_def)

lemma oov_clean_idem: "oov_clean ck (oov_clean ck t) = oov_clean ck t"
proof -
  have "oov_clean ck (oov_clean ck t) =
        join '' '' (filter (\<lambda>word. vocab_dict ck word \<noteq> None) (split (oov_clean ck t)))"
    by (simp only: oov_clean_def)
  also have "\<dots> = join '' '' (filter (\<lambda>word. vocab_dict ck word \<noteq> None)
                            (filter (\<lambda>word. vocab_dict ck word \<noteq> None) (split t)))"
    by (simp only: split_oov_clean)
  also have "\<dots> = oov_clean ck t" by (simp add: oov_clean_def)
  finally show ?thesis .
qed

text \<open>
  C8, as the code has it. Cleaning a cleaned string \<open>s\<close> returns \<open>s\<close> when no step before the
  vocabulary filter applies to \<open>s\<close>: \<open>s\<close> is in lower case, none of the patterns of the
  cleaner occurs in it, and it has no digit. Without that condition the cleaner is not
  idempotent. The removal of a filler can bring the parts of another filler side by side:
  \<open>you you know know\<close> is cleaned to \<open>you know\<close>, and \<open>you know\<close> to the empty string.
\<close>

theorem clean_fixed_when_no_rule_applies:
  assumes "s = clean ck x" and "lower s = s"
    and "list_all (\<lambda>(pattern, repl). re_findall pattern s = []) cleaner_rules"
    and "re_findall (Plus digit) s = []"
  shows "clean ck s = s"
proof -
  from assms(2,3,4) have "clean ck s = oov_clean ck s"
    by (simp add: clean_def clean_with_def substitute_unchanged num_replace_unchanged)
  also from assms(1) have "\<dots> = s"
    by (simp add: clean_def clean_with_def oov_clean_idem)
  finally show ?thesis .
qed

theorem clean_fixed_when_no_rule_applies_witness:
  "''hello world'' = clean demo ''Hello, World!'' \<and> clean demo ''hello world'' = ''hello world''"
proof -
  have 1: "''hello world'' = clean demo ''Hello, World!''" by code_simp
  have 2: "lower ''hello world'' = ''hello world''" by code_simp
  have 3: "list_all (\<lambda>(pattern, repl). re_findall pattern ''hello world'' = []) cleaner_rules"
    by code_simp
  have 4: "re_findall (Plus digit) ''hello world'' = []" by code_simp
  from 1 clean_fixed_when_no_rule_applies [OF 1 2 3 4] show ?thesis by (rule conjI)
qed

theorem clean_not_idempotent:
  "clean demo ''you you know know'' = ''you know'' \<and> clean demo ''you know'' = []"
  by code_simp

subsection \<open>The order of the rules\<close>

text \<open>
  C9. The contractions and the fillers do not commute. With \<open>i\<close> and \<open>am\<close> in the
  vocabulary, the cleaner turns \<open>i'm\<close> into \<open>i\<close>: the contraction is expanded to \<open>i am\<close> and
  the filler \<open>am\<close> is removed. With the fillers removed before the contractions are expanded,
  in either of the two orders that do so, the result is \<open>i am\<close>.
\<close>

theorem rule_order_matters:
  assumes "vocab_dict ck ''i'' \<noteq> None" and "vocab_dict ck ''am'' \<noteq> None"
  shows "clean ck ''i'm'' = ''i'' \<and>
         clean_with swapped_rules ck ''i'm'' = ''i am'' \<and>
         clean_with fillers_first_rules ck ''i'm'' = ''i am'' \<and>
         clean_with swapped_rules ck ''i'm'' \<noteq> clean ck ''i'm''"
proof -
  have a: "substitute cleaner_rules (lower ''i'm'') = ''i ''" by code_simp
  have b: "re_findall (Plus digit) ''i '' = []" by code_simp
  have c: "split ''i '' = [''i'']" by code_simp
  from assms have d: "oov_clean ck ''i '' = ''i''"
    unfolding oov_clean_def c by simp
  have 1: "clean ck ''i'm'' = ''i''"
    unfolding clean_def clean_with_def a num_replace_unchanged [OF b] by (rule d)
  have a': "substitute swapped_rules (lower ''i'm'') = ''i am''" by code_simp
  have a'': "substitute fillers_first_rules (lower ''i'm'') = ''i am''" by code_simp
  have b': "re_findall (Plus digit) ''i am'' = []" by code_simp
  have c': "split ''i am'' = [''i'', ''am'']" by code_simp
  from assms have d': "oov_clean ck ''i am'' = ''i am''"
    unfolding oov_clean_def c' by simp
  have 2: "clean_with swapped_rules ck ''i'm'' = ''i am''"
    unfolding clean_with_def a' num_replace_unchanged [OF b'] by (rule d')
  have 3: "clean_with fillers_first_rules ck ''i'm'' = ''i am''"
    unfolding clean_with_def a'' num_replace_unchanged [OF b'] by (rule d')
  from 1 2 3 show ?thesis by simp
qed

theorem rule_order_matters_witness:
  "clean demo ''i'm'' = ''i'' \<and>
   clean_with swapped_rules demo ''i'm'' = ''i am'' \<and>
   clean_with fillers_first_rules demo ''i'm'' = ''i am'' \<and>
   clean_with swapped_rules demo ''i'm'' \<noteq> clean demo ''i'm''"
proof -
  have 1: "vocab_dict demo ''i'' \<noteq> None" by code_simp
  have 2: "vocab_dict demo ''am'' \<noteq> None" by code_simp
  show ?thesis by (rule rule_order_matters [OF 1 2])
qed

end
